theory Spec2Isabelle
  imports Main "HOL-Library.AList"
begin

section \<open>The rule model\<close>

text \<open>
  \<^verbatim>\<open>rule_optimizer.py\<close> imports \<^verbatim>\<open>Rule\<close> and \<^verbatim>\<open>Rules\<close> from the parser module and reads three
  things of them: \<^verbatim>\<open>rule.head\<close>, \<^verbatim>\<open>rule.predicates\<close> and, of a predicate, \<^verbatim>\<open>.id\<close>.
  The type of \<^verbatim>\<open>.id\<close> is declared in the parser, so it is the type parameter \<open>'i\<close> here,
  compared with \<^verbatim>\<open>==\<close> (HOL equality); whatever else a predicate carries is \<open>'a\<close>.
  The field \<^verbatim>\<open>id\<close> is called \<open>pred_id\<close> (\<open>id\<close> is HOL's identity function).
\<close>

record ('i, 'a) predicate =
  pred_id :: 'i
  parameters :: 'a

record ('i, 'a) rule =
  head :: "('i, 'a) predicate"
  predicates :: "('i, 'a) predicate list"

text \<open>
  \<^verbatim>\<open>class Vertex(Rule)\<close>: a rule extended by \<^verbatim>\<open>id\<close>, \<^verbatim>\<open>edges\<close> and \<^verbatim>\<open>reverse\<close>. Python
  sets of indices are sets of naturals (the indices come from \<^verbatim>\<open>enumerate\<close>).
\<close>

record ('i, 'a) vertex = "('i, 'a) rule" +
  vertex_id :: nat
  edges :: "nat set"
  reverse :: "nat set"

section \<open>Vertex\<close>

text \<open>
  \<^verbatim>\<open>Vertex.adjacency(rule, rules)\<close>: the loop over \<^verbatim>\<open>enumerate(rules.rules)\<close> with the
  accumulator \<^verbatim>\<open>adjacent\<close>. The \<^verbatim>\<open>continue\<close> is the last statement of the body. The
  docstring speaks of the rules the given rule affects; the loop collects the rules whose
  heads the body of the given rule uses, and that is what is modelled.
\<close>

fun adjacency_loop ::
  "('i, 'a) rule \<Rightarrow> (nat \<times> ('i, 'a) rule) list \<Rightarrow> nat set \<Rightarrow> nat set" where
  "adjacency_loop rule [] adjacent = adjacent"
| "adjacency_loop rule ((i, r) # rest) adjacent =
     (if pred_id (head r) \<in> set (map pred_id (predicates rule))
      then adjacency_loop rule rest (insert i adjacent)
      else adjacency_loop rule rest adjacent)"

definition adjacency :: "('i, 'a) rule \<Rightarrow> ('i, 'a) rule list \<Rightarrow> nat set" where
  "adjacency rule rules = adjacency_loop rule (enumerate 0 rules) {}"

text \<open>
  \<^verbatim>\<open>Vertex.reverse_edges(rule, rules)\<close>: the same loop with the roles of the two rules
  exchanged. Its accumulator \<^verbatim>\<open>reverse\<close> is \<open>rev_acc\<close> here, \<open>reverse\<close> being the vertex's field.
\<close>

fun reverse_edges_loop ::
  "('i, 'a) rule \<Rightarrow> (nat \<times> ('i, 'a) rule) list \<Rightarrow> nat set \<Rightarrow> nat set" where
  "reverse_edges_loop rule [] rev_acc = rev_acc"
| "reverse_edges_loop rule ((i, r) # rest) rev_acc =
     (if pred_id (head rule) \<in> set (map pred_id (predicates r))
      then reverse_edges_loop rule rest (insert i rev_acc)
      else reverse_edges_loop rule rest rev_acc)"

definition reverse_edges :: "('i, 'a) rule \<Rightarrow> ('i, 'a) rule list \<Rightarrow> nat set" where
  "reverse_edges rule rules = reverse_edges_loop rule (enumerate 0 rules) {}"

text \<open>
  \<^verbatim>\<open>Vertex.__init__(rule, index, rules)\<close>: the superclass constructor is called with the
  head and the predicates of \<^verbatim>\<open>rule\<close>, then the three fields are set.
\<close>

definition Vertex_init ::
  "('i, 'a) rule \<Rightarrow> nat \<Rightarrow> ('i, 'a) rule list \<Rightarrow> ('i, 'a) vertex" where
  "Vertex_init rule index rules =
     \<lparr> head = head rule, predicates = predicates rule,
       vertex_id = index,
       edges = adjacency rule rules,
       reverse = reverse_edges rule rules \<rparr>"

section \<open>DependencyGraph\<close>

text \<open>
  A Python dictionary keeps its keys in insertion order and overwrites in place: an
  association list with \<^const>\<open>AList.update\<close> for \<^verbatim>\<open>d[k] = v\<close> and \<^const>\<open>map_of\<close> for \<^verbatim>\<open>d[k]\<close>.

  \<^verbatim>\<open>DependencyGraph.__init__(rules)\<close> is a state transformer. The state holds the two
  objects the constructor can reach: the argument's list \<^verbatim>\<open>rules.rules\<close> (\<open>arg_rules\<close>) and
  the dictionary \<^verbatim>\<open>self.rules\<close> under construction (\<open>self_rules\<close>). Each iteration reads the
  rule list as it is in the current state and stores one vertex under the key \<^verbatim>\<open>i\<close>. The
  \<^verbatim>\<open>logger.debug\<close> call at the end only reads.
\<close>

record ('i, 'a) dependency_graph =
  arg_rules :: "('i, 'a) rule list"
  self_rules :: "(nat \<times> ('i, 'a) vertex) list"

fun DependencyGraph_loop ::
  "(nat \<times> ('i, 'a) rule) list \<Rightarrow> ('i, 'a) dependency_graph \<Rightarrow> ('i, 'a) dependency_graph" where
  "DependencyGraph_loop [] st = st"
| "DependencyGraph_loop ((i, rule) # rest) st =
     DependencyGraph_loop rest
       (st\<lparr>self_rules := AList.update i (Vertex_init rule i (arg_rules st)) (self_rules st)\<rparr>)"

definition DependencyGraph_init :: "('i, 'a) rule list \<Rightarrow> ('i, 'a) dependency_graph" where
  "DependencyGraph_init rules =
     DependencyGraph_loop (enumerate 0 rules) \<lparr>arg_rules = rules, self_rules = []\<rparr>"

section \<open>Textual renderings\<close>

text \<open>
  \<^verbatim>\<open>"R{}".format(i)\<close> prints an index in decimal; the indices are never negative.
\<close>

definition digit_char :: "nat \<Rightarrow> char" where
  "digit_char d = ''0123456789'' ! d"

function str_nat :: "nat \<Rightarrow> string" where
  "str_nat n =
     (if n < 10 then [digit_char n] else str_nat (n div 10) @ [digit_char (n mod 10)])"
  by pat_completeness auto
termination
  by (relation "measure (\<lambda>n. n)") auto

declare str_nat.simps [simp del]

text \<open>\<^verbatim>\<open>sep.join(xs)\<close>.\<close>

fun join :: "string \<Rightarrow> string list \<Rightarrow> string" where
  "join sep [] = []"
| "join sep [x] = x"
| "join sep (x # y # ys) = x @ sep @ join sep (y # ys)"

text \<open>\<^verbatim>\<open>Vertex.__str__\<close>; \<^verbatim>\<open>sorted\<close> of a set of integers is its ascending list.\<close>

definition Vertex_str :: "('i, 'a) vertex \<Rightarrow> string" where
  "Vertex_str v =
     ''R'' @ str_nat (vertex_id v) @ '':'' @
     join '','' (map (\<lambda>r. ''R'' @ str_nat r) (sorted_list_of_set (edges v)))"

text \<open>
  \<^verbatim>\<open>DependencyGraph.reverse\<close> and \<^verbatim>\<open>DependencyGraph.__str__\<close>. Both index the dictionary
  with its own keys, so \<^verbatim>\<open>self.rules[i]\<close> cannot raise.
\<close>

definition DependencyGraph_reverse :: "(nat \<times> ('i, 'a) vertex) list \<Rightarrow> string" where
  "DependencyGraph_reverse g =
     join ''\<newline>''
       (map (\<lambda>i. ''R'' @ str_nat (vertex_id (the (map_of g i))) @ '':'' @
                 join '','' (map (\<lambda>r. ''R'' @ str_nat r)
                                (sorted_list_of_set (reverse (the (map_of g i))))))
            (sort (map fst g)))
     @ ''\<newline>''"

definition DependencyGraph_str :: "(nat \<times> ('i, 'a) vertex) list \<Rightarrow> string" where
  "DependencyGraph_str g =
     join ''\<newline>'' (map (\<lambda>i. Vertex_str (the (map_of g i))) (sort (map fst g)))
     @ ''\<newline>''"

section \<open>RuleOptimizer\<close>

text \<open>
  \<^verbatim>\<open>RuleOptimizer.__init__\<close> reads \<^verbatim>\<open>datalog_program.rules\<close> and
  \<^verbatim>\<open>datalog_program.queries.queries\<close>; everything else a parsed program holds (schemes and
  facts) is \<open>program_facts\<close>, of a type parameter.
\<close>

record ('i, 'a, 'q, 'f) datalog_program =
  program_rules :: "('i, 'a) rule list"
  program_queries :: "'q list"
  program_facts :: 'f

text \<open>
  The constructor's call log, kept to state in which order the methods are invoked. A query
  call records the query and the fact store it is evaluated against.
\<close>

datatype ('q, 'f) call =
  Call_evaluate_optimized_rules
| Call_evaluate_query 'q 'f

text \<open>
  \<^verbatim>\<open>class RuleOptimizer(DatalogInterpreter)\<close>. Of the superclass (in
  \<^verbatim>\<open>datalog_interpreter.py\<close>) this file uses the attribute \<^verbatim>\<open>rdbms\<close>, a dictionary keyed by
  query, and the method \<^verbatim>\<open>evaluate_query\<close>; the rest of its state is the fact store.
\<close>

record ('q, 'r, 'f) datalog_interpreter =
  fact_store :: 'f
  rdbms :: "('q \<times> 'r) list"
  calls :: "('q, 'f) call list"

record ('i, 'a, 'q, 'r, 'f) rule_optimizer = "('q, 'r, 'f) datalog_interpreter" +
  dependency_graph :: "(nat \<times> ('i, 'a) vertex) list"
  rule_evaluation :: string

text \<open>
  \<^verbatim>\<open>RuleOptimizer.evaluate_optimized_rules(self, order)\<close>: the result and the object, which
  the body never touches.
\<close>

definition evaluate_optimized_rules :: "'s \<Rightarrow> 'g \<Rightarrow> string \<times> 's" where
  "evaluate_optimized_rules self order = ('''', self)"

text \<open>
  The query loop of the constructor. \<^verbatim>\<open>DatalogInterpreter.evaluate_query\<close> is a parameter;
  its interface is the one the specification gives,
  \<^verbatim>\<open>evaluate_query(query, fact_store) -> result set\<close>.
\<close>

fun query_loop ::
  "('q \<Rightarrow> 'f \<Rightarrow> 'r) \<Rightarrow> 'q list \<Rightarrow>
   ('i, 'a, 'q, 'r, 'f) rule_optimizer \<Rightarrow> ('i, 'a, 'q, 'r, 'f) rule_optimizer" where
  "query_loop evaluate_query [] self = self"
| "query_loop evaluate_query (query # rest) self =
     query_loop evaluate_query rest
       (self\<lparr>rdbms := AList.update query (evaluate_query query (fact_store self)) (rdbms self),
              calls := calls self @ [Call_evaluate_query query (fact_store self)]\<rparr>)"

text \<open>
  \<^verbatim>\<open>RuleOptimizer.__init__(datalog_program)\<close>. The superclass constructor is the parameter
  \<open>super_init\<close>, applied to the program and \<^verbatim>\<open>least_fix_point=False\<close>. The object \<open>self1\<close>
  is the one the superclass constructor made, with \<^verbatim>\<open>dependency_graph\<close> assigned; the field
  \<open>rule_evaluation\<close>, which a record must have from the start, is assigned next.
\<close>

definition RuleOptimizer_init ::
  "(('i, 'a, 'q, 'f) datalog_program \<Rightarrow> bool \<Rightarrow> ('q, 'r, 'f) datalog_interpreter) \<Rightarrow>
   ('q \<Rightarrow> 'f \<Rightarrow> 'r) \<Rightarrow> ('i, 'a, 'q, 'f) datalog_program \<Rightarrow>
   ('i, 'a, 'q, 'r, 'f) rule_optimizer" where
  "RuleOptimizer_init super_init evaluate_query datalog_program =
     (let base = super_init datalog_program False;
          dg = self_rules (DependencyGraph_init (program_rules datalog_program));
          self1 = \<lparr> fact_store = fact_store base, rdbms = rdbms base, calls = calls base,
                    dependency_graph = dg, rule_evaluation = '''' \<rparr>;
          (result, self2) = evaluate_optimized_rules self1 (dependency_graph self1);
          self3 = self2\<lparr>rule_evaluation := result,
                        calls := calls self2 @ [Call_evaluate_optimized_rules]\<rparr>
      in query_loop evaluate_query (program_queries datalog_program) self3)"

text \<open>
  Modelled from the spec: the superclass constructor \<^verbatim>\<open>DatalogInterpreter.__init__\<close>, which is
  in \<^verbatim>\<open>datalog_interpreter.py\<close> and not among the sources. The specification says of the fact
  store that it is "initialized from parsed base facts" and "grows monotonically as rules
  fire", and that the naive strategy is "whole-program least-fixpoint evaluation". So without
  \<^verbatim>\<open>least_fix_point\<close> the store holds the base facts and no rule has fired; with it, the naive
  evaluation \<open>naive\<close> (a parameter) has run.
\<close>

definition DatalogInterpreter_init ::
  "(('i, 'a, 'q, 'f) datalog_program \<Rightarrow> ('q, 'r, 'f) datalog_interpreter) \<Rightarrow>
   ('i, 'a, 'q, 'f) datalog_program \<Rightarrow> bool \<Rightarrow> ('q, 'r, 'f) datalog_interpreter" where
  "DatalogInterpreter_init naive datalog_program least_fix_point =
     (if least_fix_point then naive datalog_program
      else \<lparr> fact_store = program_facts datalog_program, rdbms = [], calls = [] \<rparr>)"

section \<open>The format of the listings, as specified\<close>

text \<open>
  A listing is one line per row, \<^verbatim>\<open>R<id>:<comma-separated R<neighbor> list>\<close>; the lines are
  joined by newlines and the text ends with a newline. The rows of a listing are the rule
  ids in ascending order, each with the ascending list of its neighbours: the forward edge
  set of the rule in the forward listing, the reverse edge set in the reverse listing.
\<close>

definition spec_line :: "nat \<Rightarrow> nat list \<Rightarrow> string" where
  "spec_line i ns = ''R'' @ str_nat i @ '':'' @ join '','' (map (\<lambda>n. ''R'' @ str_nat n) ns)"

definition spec_listing :: "(nat \<times> nat list) list \<Rightarrow> string" where
  "spec_listing rows =
     join ''\<newline>'' (map (\<lambda>(i, ns). spec_line i ns) rows) @ ''\<newline>''"

definition spec_forward_rows :: "('i, 'a) rule list \<Rightarrow> (nat \<times> nat list) list" where
  "spec_forward_rows rules =
     map (\<lambda>i. (i, sorted_list_of_set (adjacency (rules ! i) rules))) [0..<length rules]"

definition spec_reverse_rows :: "('i, 'a) rule list \<Rightarrow> (nat \<times> nat list) list" where
  "spec_reverse_rows rules =
     map (\<lambda>i. (i, sorted_list_of_set (reverse_edges (rules ! i) rules))) [0..<length rules]"

text \<open>
  The lines of a text are the pieces between its newlines (\<^verbatim>\<open>text.split("\n")\<close>); a text that
  ends with a newline has the empty piece last. A text contains a line when the line is one
  of these pieces.
\<close>

fun text_lines :: "string \<Rightarrow> string list" where
  "text_lines [] = [[]]"
| "text_lines (c # cs) =
     (if c = CHR 0x0A then [] # text_lines cs
      else (c # hd (text_lines cs)) # tl (text_lines cs))"

section \<open>A body without one predicate\<close>

text \<open>The rule \<open>r\<close> with every body predicate of identity \<open>p\<close> removed.\<close>

definition drop_predicate :: "'i \<Rightarrow> ('i, 'a) rule \<Rightarrow> ('i, 'a) rule" where
  "drop_predicate p r = r\<lparr>predicates := filter (\<lambda>q. pred_id q \<noteq> p) (predicates r)\<rparr>"

section \<open>An example program\<close>

text \<open>
  Three rules: \<^verbatim>\<open>a(X) :- b(X).\<close>, \<^verbatim>\<open>b(X) :- c(X).\<close> and \<^verbatim>\<open>d(X) :- d(X), c(X).\<close>, with
  predicate identities as strings. Rule 0 depends on rule 1, rule 2 on itself, and
  \<^verbatim>\<open>c\<close> is defined by no rule.
\<close>

definition P :: "string \<Rightarrow> (string, unit) predicate" where
  "P n = \<lparr>pred_id = n, parameters = ()\<rparr>"

definition example_rules :: "(string, unit) rule list" where
  "example_rules =
     [\<lparr>head = P ''a'', predicates = [P ''b'']\<rparr>,
      \<lparr>head = P ''b'', predicates = [P ''c'']\<rparr>,
      \<lparr>head = P ''d'', predicates = [P ''d'', P ''c'']\<rparr>]"

text \<open>
  Three rules in which rule 0 depends on two rules and rule 1 is used by two rules:
  \<^verbatim>\<open>a(X) :- b(X), c(X).\<close>, \<^verbatim>\<open>b(X) :- x(X).\<close> and \<^verbatim>\<open>c(X) :- b(X).\<close>
\<close>

definition branching_rules :: "(string, unit) rule list" where
  "branching_rules =
     [\<lparr>head = P ''a'', predicates = [P ''b'', P ''c'']\<rparr>,
      \<lparr>head = P ''b'', predicates = [P ''x'']\<rparr>,
      \<lparr>head = P ''c'', predicates = [P ''b'']\<rparr>]"

section \<open>The loops in closed form\<close>

lemma adjacency_loop_iff:
  "s \<in> adjacency_loop rule (enumerate n rs) acc \<longleftrightarrow>
     s \<in> acc \<or> (n \<le> s \<and> s < n + length rs \<and>
       pred_id (head (rs ! (s - n))) \<in> set (map pred_id (predicates rule)))"
proof (induction rs arbitrary: n acc)
  case Nil
  show ?case by auto
next
  case (Cons r rs)
  show ?case
  proof (cases "s \<le> n")
    case True
    then show ?thesis by (auto simp add: Cons.IH)
  next
    case False
    then have "(r # rs) ! (s - n) = rs ! (s - Suc n)"
      by (simp add: nth_Cons')
    with False show ?thesis by (auto simp add: Cons.IH)
  qed
qed

lemma adjacency_iff:
  "s \<in> adjacency rule rules \<longleftrightarrow>
     s < length rules \<and> pred_id (head (rules ! s)) \<in> set (map pred_id (predicates rule))"
  by (simp add: adjacency_def adjacency_loop_iff)

lemma reverse_edges_loop_iff:
  "s \<in> reverse_edges_loop rule (enumerate n rs) acc \<longleftrightarrow>
     s \<in> acc \<or> (n \<le> s \<and> s < n + length rs \<and>
       pred_id (head rule) \<in> set (map pred_id (predicates (rs ! (s - n)))))"
proof (induction rs arbitrary: n acc)
  case Nil
  show ?case by auto
next
  case (Cons r rs)
  show ?case
  proof (cases "s \<le> n")
    case True
    then show ?thesis by (auto simp add: Cons.IH)
  next
    case False
    then have "(r # rs) ! (s - n) = rs ! (s - Suc n)"
      by (simp add: nth_Cons')
    with False show ?thesis by (auto simp add: Cons.IH)
  qed
qed

lemma reverse_edges_iff:
  "s \<in> reverse_edges rule rules \<longleftrightarrow>
     s < length rules \<and> pred_id (head rule) \<in> set (map pred_id (predicates (rules ! s)))"
  by (simp add: reverse_edges_def reverse_edges_loop_iff)

lemma DependencyGraph_loop_arg_rules:
  "arg_rules (DependencyGraph_loop ps st) = arg_rules st"
  by (induction ps st rule: DependencyGraph_loop.induct) simp_all

lemma update_fresh_key: "k \<notin> fst ` set al \<Longrightarrow> AList.update k v al = al @ [(k, v)]"
  by (induction al) auto

lemma DependencyGraph_loop_self_rules:
  "distinct (map fst ps) \<Longrightarrow> fst ` set ps \<inter> fst ` set (self_rules st) = {} \<Longrightarrow>
   self_rules (DependencyGraph_loop ps st) =
     self_rules st @ map (\<lambda>(i, rule). (i, Vertex_init rule i (arg_rules st))) ps"
proof (induction ps st rule: DependencyGraph_loop.induct)
  case (1 st)
  show ?case by simp
next
  case (2 i rule rest st)
  let ?st' = "st\<lparr>self_rules :=
      AList.update i (Vertex_init rule i (arg_rules st)) (self_rules st)\<rparr>"
  from "2.prems" have fresh: "i \<notin> fst ` set (self_rules st)"
    by auto
  then have upd: "self_rules ?st' = self_rules st @ [(i, Vertex_init rule i (arg_rules st))]"
    by (simp add: update_fresh_key)
  from "2.prems" have "distinct (map fst rest)"
    and "fst ` set rest \<inter> fst ` set (self_rules ?st') = {}"
    by (auto simp add: upd)
  then have "self_rules (DependencyGraph_loop rest ?st') =
     self_rules ?st' @ map (\<lambda>(i, rule). (i, Vertex_init rule i (arg_rules ?st'))) rest"
    by (rule "2.IH")
  then show ?case by (simp add: upd)
qed

lemma self_rules_DependencyGraph_init:
  "self_rules (DependencyGraph_init rules) =
     map (\<lambda>(i, rule). (i, Vertex_init rule i rules)) (enumerate 0 rules)"
  by (simp add: DependencyGraph_init_def DependencyGraph_loop_self_rules)

lemma keys_DependencyGraph_init:
  "map fst (self_rules (DependencyGraph_init rules)) = [0..<length rules]"
proof -
  have "fst \<circ> (\<lambda>(i, rule). (i, Vertex_init rule i rules)) = fst"
    by (rule ext) (simp add: case_prod_beta)
  then have "map fst (map (\<lambda>(i, rule). (i, Vertex_init rule i rules)) (enumerate 0 rules)) =
        map fst (enumerate 0 rules)"
    by simp
  then show ?thesis by (simp add: self_rules_DependencyGraph_init)
qed

lemma map_of_enumerate:
  "map_of (map (\<lambda>(i, r). (i, f i r)) (enumerate n rs)) k =
     (if n \<le> k \<and> k < n + length rs then Some (f k (rs ! (k - n))) else None)"
proof (induction rs arbitrary: n)
  case Nil
  show ?case by simp
next
  case (Cons r rs)
  show ?case
  proof (cases "k \<le> n")
    case True
    then show ?thesis by (auto simp add: Cons.IH)
  next
    case False
    then have "(r # rs) ! (k - n) = rs ! (k - Suc n)"
      by (simp add: nth_Cons')
    with False show ?thesis by (auto simp add: Cons.IH)
  qed
qed

lemma graph_DependencyGraph_init:
  "map_of (self_rules (DependencyGraph_init rules)) k =
     (if k < length rules then Some (Vertex_init (rules ! k) k rules) else None)"
  by (simp add: self_rules_DependencyGraph_init map_of_enumerate)

lemma finite_adjacency: "finite (adjacency rule rules)"
  by (rule finite_subset [of _ "{..<length rules}"]) (auto simp add: adjacency_iff)

lemma finite_reverse_edges: "finite (reverse_edges rule rules)"
  by (rule finite_subset [of _ "{..<length rules}"]) (auto simp add: reverse_edges_iff)

section \<open>Forward and reverse edges\<close>

text \<open>
  Claim C1. For every list of rules and every rule \<open>r\<close> in it (the rule at index \<open>k\<close>), the
  forward edge set of its vertex is the result of \<open>adjacency\<close>, and it contains exactly the
  ids \<open>s\<close> of the rules whose head identity is among the identities of \<open>r\<close>'s body.
\<close>

theorem forward_edges_exact:
  "k < length rules \<Longrightarrow>
     \<exists>v. map_of (self_rules (DependencyGraph_init rules)) k = Some v \<and>
         edges v = adjacency (rules ! k) rules \<and>
         (\<forall>s. s \<in> edges v \<longleftrightarrow>
              s < length rules \<and>
              pred_id (head (rules ! s)) \<in> set (map pred_id (predicates (rules ! k))))"
  by (simp add: graph_DependencyGraph_init Vertex_init_def adjacency_iff)

theorem forward_edges_exact_witness:
  "0 < length example_rules \<and>
   (\<exists>v. map_of (self_rules (DependencyGraph_init example_rules)) 0 = Some v \<and>
        edges v = {1} \<and>
        (1 \<in> edges v \<longleftrightarrow>
           1 < length example_rules \<and>
           pred_id (head (example_rules ! 1))
             \<in> set (map pred_id (predicates (example_rules ! 0)))))"
proof -
  have len: "0 < length example_rules"
    by (simp add: example_rules_def)
  have adj: "adjacency (example_rules ! 0) example_rules = {1}"
    by code_simp
  from forward_edges_exact [OF len] adj len show ?thesis
    by auto
qed

text \<open>
  Claim C2. For every list of rules and all rules \<open>r\<close> and \<open>s\<close> in it, the id of \<open>s\<close> is in
  the forward edge set of \<open>r\<close> if and only if the id of \<open>r\<close> is in the reverse edge set of
  \<open>s\<close>.
\<close>

theorem forward_reverse_transpose:
  "r < length rules \<Longrightarrow> s < length rules \<Longrightarrow>
     \<exists>vr vs. map_of (self_rules (DependencyGraph_init rules)) r = Some vr \<and>
            map_of (self_rules (DependencyGraph_init rules)) s = Some vs \<and>
            vertex_id vr = r \<and> vertex_id vs = s \<and>
            (vertex_id vs \<in> edges vr \<longleftrightarrow> vertex_id vr \<in> reverse vs)"
  by (simp add: graph_DependencyGraph_init Vertex_init_def adjacency_iff reverse_edges_iff)

theorem forward_reverse_transpose_witness:
  "0 < length example_rules \<and> 1 < length example_rules \<and>
   (\<exists>vr vs. map_of (self_rules (DependencyGraph_init example_rules)) 0 = Some vr \<and>
           map_of (self_rules (DependencyGraph_init example_rules)) 1 = Some vs \<and>
           vertex_id vr = 0 \<and> vertex_id vs = 1 \<and>
           (vertex_id vs \<in> edges vr \<longleftrightarrow> vertex_id vr \<in> reverse vs))"
proof -
  have len0: "0 < length example_rules" and len1: "1 < length example_rules"
    by (simp_all add: example_rules_def)
  from forward_reverse_transpose [OF len0 len1] len0 len1 show ?thesis
    by simp
qed

section \<open>The graph as a whole\<close>

text \<open>
  Claim C3. For a program with \<open>N\<close> rules the dictionary of the graph has exactly the keys
  \<open>0, ..., N - 1\<close>, in this order and once each, so \<open>N\<close> entries; the vertex stored under
  \<open>k\<close> has the id \<open>k\<close> and the head and body of rule \<open>k\<close>; every id in a forward or reverse
  edge set is below \<open>N\<close>, hence a key. A rule's own id may occur in its own edge sets:
  rule 2 of the example program has itself in both.
\<close>

theorem graph_covers_rule_ids:
  "map fst (self_rules (DependencyGraph_init rules)) = [0..<length rules] \<and>
   length (self_rules (DependencyGraph_init rules)) = length rules \<and>
   (\<forall>k v. map_of (self_rules (DependencyGraph_init rules)) k = Some v \<longrightarrow>
      k < length rules \<and> vertex_id v = k \<and>
      head v = head (rules ! k) \<and> predicates v = predicates (rules ! k) \<and>
      edges v \<subseteq> {0..<length rules} \<and> reverse v \<subseteq> {0..<length rules}) \<and>
   (\<exists>v. map_of (self_rules (DependencyGraph_init example_rules)) 2 = Some v \<and>
        vertex_id v \<in> edges v \<and> vertex_id v \<in> reverse v)"
proof -
  have keys: "map fst (self_rules (DependencyGraph_init rules)) = [0..<length rules]"
    by (rule keys_DependencyGraph_init)
  have "length (map fst (self_rules (DependencyGraph_init rules))) = length rules"
    by (simp only: keys length_upt)
  then have len: "length (self_rules (DependencyGraph_init rules)) = length rules"
    by simp
  have verts: "\<forall>k v. map_of (self_rules (DependencyGraph_init rules)) k = Some v \<longrightarrow>
      k < length rules \<and> vertex_id v = k \<and>
      head v = head (rules ! k) \<and> predicates v = predicates (rules ! k) \<and>
      edges v \<subseteq> {0..<length rules} \<and> reverse v \<subseteq> {0..<length rules}"
    by (auto simp add: graph_DependencyGraph_init Vertex_init_def adjacency_iff
          reverse_edges_iff split: if_splits)
  have "map_of (self_rules (DependencyGraph_init example_rules)) 2 =
          Some (Vertex_init (example_rules ! 2) 2 example_rules)"
    by (simp add: graph_DependencyGraph_init example_rules_def)
  moreover have "2 \<in> adjacency (example_rules ! 2) example_rules"
    by (simp add: adjacency_iff example_rules_def P_def)
  moreover have "2 \<in> reverse_edges (example_rules ! 2) example_rules"
    by (simp add: reverse_edges_iff example_rules_def P_def)
  ultimately have self_edge:
    "\<exists>v. map_of (self_rules (DependencyGraph_init example_rules)) 2 = Some v \<and>
        vertex_id v \<in> edges v \<and> vertex_id v \<in> reverse v"
    by (simp add: Vertex_init_def)
  from keys len verts self_edge show ?thesis by simp
qed

theorem graph_covers_rule_ids_witness:
  "map_of (self_rules (DependencyGraph_init example_rules)) 1 =
     Some (Vertex_init (example_rules ! 1) 1 example_rules) \<and>
   vertex_id (Vertex_init (example_rules ! 1) 1 example_rules) = 1 \<and>
   edges (Vertex_init (example_rules ! 1) 1 example_rules)
     \<subseteq> {0..<length example_rules} \<and>
   reverse (Vertex_init (example_rules ! 1) 1 example_rules)
     \<subseteq> {0..<length example_rules}"
proof -
  have g: "map_of (self_rules (DependencyGraph_init example_rules)) 1 =
     Some (Vertex_init (example_rules ! 1) 1 example_rules)"
    by (simp add: graph_DependencyGraph_init example_rules_def)
  from graph_covers_rule_ids [of example_rules]
  have "\<forall>k v. map_of (self_rules (DependencyGraph_init example_rules)) k = Some v \<longrightarrow>
      k < length example_rules \<and> vertex_id v = k \<and>
      head v = head (example_rules ! k) \<and> predicates v = predicates (example_rules ! k) \<and>
      edges v \<subseteq> {0..<length example_rules} \<and> reverse v \<subseteq> {0..<length example_rules}"
    by blast
  with g show ?thesis by blast
qed

text \<open>
  Claim C9. Constructing the graph leaves its argument as it was: after the constructor
  the rule list is the list it was given, so the same rules in the same order, each with
  the head and the body it had.
\<close>

theorem construction_leaves_rules_unchanged:
  "arg_rules (DependencyGraph_init rules) = rules \<and>
   map head (arg_rules (DependencyGraph_init rules)) = map head rules \<and>
   map predicates (arg_rules (DependencyGraph_init rules)) = map predicates rules"
  by (simp add: DependencyGraph_init_def DependencyGraph_loop_arg_rules)

section \<open>Predicates that no rule defines\<close>

lemma drop_predicate_ids:
  "pred_id ` set (predicates (drop_predicate p r)) = pred_id ` set (predicates r) - {p}"
  by (auto simp add: drop_predicate_def)

text \<open>
  Claim C8. Let the body of rule \<open>k\<close> contain a predicate identity \<open>p\<close> that is the head
  identity of no rule of the program. The construction has no failing branch and yields a
  vertex for every rule; and \<open>p\<close> contributes no edge: with \<open>p\<close> removed from the body of rule
  \<open>k\<close>, every vertex has the same forward and the same reverse edge set as before.
\<close>

theorem base_predicate_no_edge:
  assumes k: "k < length rules"
    and p: "p \<in> set (map pred_id (predicates (rules ! k)))"
    and base: "\<forall>s < length rules. pred_id (head (rules ! s)) \<noteq> p"
  shows "map fst (self_rules (DependencyGraph_init rules)) = [0..<length rules] \<and>
    (\<forall>j < length rules.
      \<exists>v v'. map_of (self_rules (DependencyGraph_init rules)) j = Some v \<and>
         map_of (self_rules (DependencyGraph_init (rules[k := drop_predicate p (rules ! k)]))) j
           = Some v' \<and>
         edges v = edges v' \<and> reverse v = reverse v')"
proof -
  let ?rules' = "rules[k := drop_predicate p (rules ! k)]"
  have hd: "head (?rules' ! s) = head (rules ! s)" if "s < length rules" for s
    using that by (cases "s = k") (simp_all add: drop_predicate_def)
  have body: "pred_id ` set (predicates (?rules' ! s)) =
        (if s = k then pred_id ` set (predicates (rules ! s)) - {p}
         else pred_id ` set (predicates (rules ! s)))" if "s < length rules" for s
    using that by (simp add: nth_list_update drop_predicate_ids)
  have fwd: "adjacency (rules ! j) rules = adjacency (?rules' ! j) ?rules'"
    if "j < length rules" for j
  proof (rule set_eqI)
    fix s
    show "s \<in> adjacency (rules ! j) rules \<longleftrightarrow> s \<in> adjacency (?rules' ! j) ?rules'"
    proof (cases "s < length rules")
      case True
      with base have "pred_id (head (rules ! s)) \<noteq> p" by simp
      with True that show ?thesis by (simp add: adjacency_iff hd body)
    next
      case False
      then show ?thesis by (simp add: adjacency_iff)
    qed
  qed
  have bwd: "reverse_edges (rules ! j) rules = reverse_edges (?rules' ! j) ?rules'"
    if "j < length rules" for j
  proof (rule set_eqI)
    fix s
    from that base have "pred_id (head (rules ! j)) \<noteq> p" by simp
    then show "s \<in> reverse_edges (rules ! j) rules \<longleftrightarrow>
               s \<in> reverse_edges (?rules' ! j) ?rules'"
      using that by (cases "s < length rules") (simp_all add: reverse_edges_iff hd body)
  qed
  show ?thesis
    by (simp add: keys_DependencyGraph_init graph_DependencyGraph_init Vertex_init_def fwd bwd)
qed

theorem base_predicate_no_edge_witness:
  "length example_rules = 3 \<and>
   ''c'' \<in> set (map pred_id (predicates (example_rules ! 2))) \<and>
   pred_id (head (example_rules ! 0)) \<noteq> ''c'' \<and>
   pred_id (head (example_rules ! 1)) \<noteq> ''c'' \<and>
   pred_id (head (example_rules ! 2)) \<noteq> ''c'' \<and>
   (\<exists>v v'. map_of (self_rules (DependencyGraph_init example_rules)) 2 = Some v \<and>
      map_of (self_rules (DependencyGraph_init
         (example_rules[2 := drop_predicate ''c'' (example_rules ! 2)]))) 2 = Some v' \<and>
      edges v = edges v' \<and> reverse v = reverse v')"
proof -
  have len: "length example_rules = 3"
    by (simp add: example_rules_def)
  then have k: "2 < length example_rules"
    by simp
  have p: "''c'' \<in> set (map pred_id (predicates (example_rules ! 2)))"
    by (simp add: example_rules_def P_def)
  have heads: "pred_id (head (example_rules ! 0)) \<noteq> ''c''"
    "pred_id (head (example_rules ! 1)) \<noteq> ''c''"
    "pred_id (head (example_rules ! 2)) \<noteq> ''c''"
    by (simp_all add: example_rules_def P_def)
  have base: "\<forall>s < length example_rules. pred_id (head (example_rules ! s)) \<noteq> ''c''"
    by (simp add: example_rules_def P_def less_Suc_eq numeral_3_eq_3)
  from base_predicate_no_edge [OF k p base] k
  have "\<exists>v v'. map_of (self_rules (DependencyGraph_init example_rules)) 2 = Some v \<and>
      map_of (self_rules (DependencyGraph_init
         (example_rules[2 := drop_predicate ''c'' (example_rules ! 2)]))) 2 = Some v' \<and>
      edges v = edges v' \<and> reverse v = reverse v'"
    by blast
  with len p heads show ?thesis by blast
qed

section \<open>The listings\<close>

lemma not_in_join:
  "c \<notin> set sep \<Longrightarrow> (\<And>x. x \<in> set xs \<Longrightarrow> c \<notin> set x) \<Longrightarrow> c \<notin> set (join sep xs)"
  by (induction sep xs rule: join.induct) simp_all

lemma digit_char_digit: "d < 10 \<Longrightarrow> digit_char d \<in> set ''0123456789''"
  unfolding digit_char_def by (rule nth_mem) simp

lemma set_str_nat: "set (str_nat n) \<subseteq> set ''0123456789''"
proof (induction n rule: str_nat.induct)
  case (1 n)
  show ?case
  proof (cases "n < 10")
    case True
    then show ?thesis
      using digit_char_digit [of n] by (subst str_nat.simps) simp
  next
    case False
    have "n mod 10 < 10" by simp
    then have "digit_char (n mod 10) \<in> set ''0123456789''"
      by (rule digit_char_digit)
    with False "1.IH" show ?thesis
      by (subst str_nat.simps) simp
  qed
qed

lemma newline_not_in_str_nat: "CHR 0x0A \<notin> set (str_nat n)"
  using set_str_nat [of n] by auto

lemma newline_not_in_spec_line: "CHR 0x0A \<notin> set (spec_line i ns)"
proof -
  have "CHR 0x0A \<notin> set (join '','' (map (\<lambda>n. ''R'' @ str_nat n) ns))"
    by (rule not_in_join) (auto simp add: newline_not_in_str_nat)
  then show ?thesis
    by (simp add: spec_line_def newline_not_in_str_nat)
qed

lemma text_lines_line:
  "CHR 0x0A \<notin> set l \<Longrightarrow> text_lines (l @ CHR 0x0A # rest) = l # text_lines rest"
  by (induction l) auto

lemma text_lines_join:
  "xs \<noteq> [] \<Longrightarrow> (\<And>x. x \<in> set xs \<Longrightarrow> CHR 0x0A \<notin> set x) \<Longrightarrow>
     text_lines (join ''\<newline>'' xs @ ''\<newline>'') = xs @ [[]]"
proof (induction "''\<newline>''" xs rule: join.induct)
  case 1
  then show ?case by simp
next
  case (2 x)
  then show ?case using text_lines_line [of x "[]"] by simp
next
  case (3 x y ys)
  have "text_lines (x @ CHR 0x0A # (join ''\<newline>'' (y # ys) @ ''\<newline>'')) =
        x # text_lines (join ''\<newline>'' (y # ys) @ ''\<newline>'')"
    using 3(3) by (intro text_lines_line) simp
  moreover have "text_lines (join ''\<newline>'' (y # ys) @ ''\<newline>'') = (y # ys) @ [[]]"
    using 3 by simp
  ultimately show ?case by simp
qed

lemma text_lines_spec_listing:
  "rows \<noteq> [] \<Longrightarrow>
     text_lines (spec_listing rows) = map (\<lambda>(i, ns). spec_line i ns) rows @ [[]]"
  unfolding spec_listing_def
  by (rule text_lines_join) (auto simp add: newline_not_in_spec_line)

lemma DependencyGraph_str_eq:
  "DependencyGraph_str (self_rules (DependencyGraph_init rules)) =
     spec_listing (spec_forward_rows rules)"
proof -
  let ?g = "self_rules (DependencyGraph_init rules)"
  let ?line = "\<lambda>i. spec_line i (sorted_list_of_set (adjacency (rules ! i) rules))"
  have keys: "sort (map fst ?g) = [0..<length rules]"
    by (simp add: keys_DependencyGraph_init)
  have lines: "map (\<lambda>i. Vertex_str (the (map_of ?g i))) [0..<length rules] =
               map ?line [0..<length rules]"
    by (rule map_cong)
       (simp_all add: graph_DependencyGraph_init Vertex_str_def Vertex_init_def spec_line_def)
  have "DependencyGraph_str ?g = join ''\<newline>'' (map ?line [0..<length rules]) @ ''\<newline>''"
    by (simp only: DependencyGraph_str_def keys lines)
  also have "\<dots> = spec_listing (spec_forward_rows rules)"
    by (simp add: spec_listing_def spec_forward_rows_def comp_def)
  finally show ?thesis .
qed

lemma DependencyGraph_reverse_eq:
  "DependencyGraph_reverse (self_rules (DependencyGraph_init rules)) =
     spec_listing (spec_reverse_rows rules)"
proof -
  let ?g = "self_rules (DependencyGraph_init rules)"
  let ?line = "\<lambda>i. spec_line i (sorted_list_of_set (reverse_edges (rules ! i) rules))"
  have keys: "sort (map fst ?g) = [0..<length rules]"
    by (simp add: keys_DependencyGraph_init)
  have lines: "map (\<lambda>i. ''R'' @ str_nat (vertex_id (the (map_of ?g i))) @ '':'' @
                 join '','' (map (\<lambda>r. ''R'' @ str_nat r)
                                (sorted_list_of_set (reverse (the (map_of ?g i))))))
                [0..<length rules] =
               map ?line [0..<length rules]"
    by (rule map_cong)
       (simp_all add: graph_DependencyGraph_init Vertex_init_def spec_line_def)
  have "DependencyGraph_reverse ?g =
          join ''\<newline>'' (map ?line [0..<length rules]) @ ''\<newline>''"
    by (simp only: DependencyGraph_reverse_def keys lines)
  also have "\<dots> = spec_listing (spec_reverse_rows rules)"
    by (simp add: spec_listing_def spec_reverse_rows_def comp_def)
  finally show ?thesis .
qed

lemma spec_forward_rows_nth:
  "i < length rules \<Longrightarrow>
     spec_forward_rows rules ! i = (i, sorted_list_of_set (adjacency (rules ! i) rules))"
  by (simp add: spec_forward_rows_def)

lemma spec_reverse_rows_nth:
  "i < length rules \<Longrightarrow>
     spec_reverse_rows rules ! i = (i, sorted_list_of_set (reverse_edges (rules ! i) rules))"
  by (simp add: spec_reverse_rows_def)

lemma spec_rows_keys:
  "map fst (spec_forward_rows rules) = [0..<length rules]"
  "map fst (spec_reverse_rows rules) = [0..<length rules]"
  by (simp_all add: spec_forward_rows_def spec_reverse_rows_def comp_def)

lemma spec_rows_empty:
  "spec_forward_rows rules = [] \<longleftrightarrow> rules = []"
  "spec_reverse_rows rules = [] \<longleftrightarrow> rules = []"
  by (simp_all add: spec_forward_rows_def spec_reverse_rows_def)

lemma forward_line_in_listing:
  assumes "i < length rules"
  shows "spec_line i (sorted_list_of_set (adjacency (rules ! i) rules))
           \<in> set (text_lines (DependencyGraph_str (self_rules (DependencyGraph_init rules))))"
proof -
  from assms have ne: "spec_forward_rows rules \<noteq> []"
    by (auto simp add: spec_rows_empty)
  from assms have "(i, sorted_list_of_set (adjacency (rules ! i) rules))
      \<in> set (spec_forward_rows rules)"
    by (simp add: spec_forward_rows_def)
  then have "(\<lambda>(i, ns). spec_line i ns) (i, sorted_list_of_set (adjacency (rules ! i) rules))
      \<in> set (map (\<lambda>(i, ns). spec_line i ns) (spec_forward_rows rules))"
    unfolding set_map by (rule imageI)
  then show ?thesis
    by (simp add: DependencyGraph_str_eq text_lines_spec_listing [OF ne])
qed

lemma reverse_line_in_listing:
  assumes "i < length rules"
  shows "spec_line i (sorted_list_of_set (reverse_edges (rules ! i) rules))
           \<in> set (text_lines (DependencyGraph_reverse (self_rules (DependencyGraph_init rules))))"
proof -
  from assms have ne: "spec_reverse_rows rules \<noteq> []"
    by (auto simp add: spec_rows_empty)
  from assms have "(i, sorted_list_of_set (reverse_edges (rules ! i) rules))
      \<in> set (spec_reverse_rows rules)"
    by (simp add: spec_reverse_rows_def)
  then have "(\<lambda>(i, ns). spec_line i ns)
        (i, sorted_list_of_set (reverse_edges (rules ! i) rules))
      \<in> set (map (\<lambda>(i, ns). spec_line i ns) (spec_reverse_rows rules))"
    unfolding set_map by (rule imageI)
  then show ?thesis
    by (simp add: DependencyGraph_reverse_eq text_lines_spec_listing [OF ne])
qed

text \<open>
  Claim C4, as it stands, fails in its last part. In the program \<^verbatim>\<open>a(X) :- b(X), c(X).\<close>,
  \<^verbatim>\<open>b(X) :- x(X).\<close>, \<^verbatim>\<open>c(X) :- b(X).\<close> the body of rule 0 references the head of rule 1, but
  it references the head of rule 2 as well, and rule 2 uses the head of rule 1 as rule 0
  does: the forward listing has the line \<^verbatim>\<open>R0:R1,R2\<close> and no line \<^verbatim>\<open>R0:R1\<close>, the reverse
  listing has the line \<^verbatim>\<open>R1:R0,R2\<close> and no line \<^verbatim>\<open>R1:R0\<close>.
\<close>

theorem listings_branching_counterexample:
  "pred_id (head (branching_rules ! 1))
     \<in> set (map pred_id (predicates (branching_rules ! 0))) \<and>
   DependencyGraph_str (self_rules (DependencyGraph_init branching_rules)) =
     ''R0:R1,R2\<newline>R1:\<newline>R2:R1\<newline>'' \<and>
   DependencyGraph_reverse (self_rules (DependencyGraph_init branching_rules)) =
     ''R0:\<newline>R1:R0,R2\<newline>R2:R0\<newline>'' \<and>
   ''R0:R1'' \<notin> set (text_lines
      (DependencyGraph_str (self_rules (DependencyGraph_init branching_rules)))) \<and>
   ''R1:R0'' \<notin> set (text_lines
      (DependencyGraph_reverse (self_rules (DependencyGraph_init branching_rules))))"
  by code_simp

text \<open>
  Claim C4, amended. For every program, the forward listing and the reverse listing each
  consist of one line per rule id, in ascending order of the ids (the lines joined by
  newlines, and a newline at the end); the line of rule \<open>i\<close> is \<^verbatim>\<open>R<i>:\<close> followed by the
  comma-separated entries \<^verbatim>\<open>R<neighbor>\<close> of the strictly ascending list of the vertex's
  forward (respectively reverse) edge set, and holds no newline itself. In particular,
  where the body of rule 0 references the head of rule 1 and of no other rule (the forward
  edge set of rule 0 is \<open>{1}\<close>), the forward listing contains the line \<^verbatim>\<open>R0:R1\<close>; and where
  rule 0 is the only rule whose body references the head of rule 1 (the reverse edge set of
  rule 1 is \<open>{0}\<close>), the reverse listing contains the line \<^verbatim>\<open>R1:R0\<close>.
\<close>

theorem listings_format:
  "DependencyGraph_str (self_rules (DependencyGraph_init rules)) =
     spec_listing (spec_forward_rows rules) \<and>
   DependencyGraph_reverse (self_rules (DependencyGraph_init rules)) =
     spec_listing (spec_reverse_rows rules) \<and>
   map fst (spec_forward_rows rules) = [0..<length rules] \<and>
   map fst (spec_reverse_rows rules) = [0..<length rules] \<and>
   (\<forall>i < length rules.
      \<exists>v fs rs. map_of (self_rules (DependencyGraph_init rules)) i = Some v \<and>
        spec_forward_rows rules ! i = (i, fs) \<and> sorted_wrt (<) fs \<and> set fs = edges v \<and>
        spec_reverse_rows rules ! i = (i, rs) \<and> sorted_wrt (<) rs \<and> set rs = reverse v) \<and>
   (\<forall>i ns. CHR 0x0A \<notin> set (spec_line i ns)) \<and>
   (rules \<noteq> [] \<longrightarrow>
      text_lines (DependencyGraph_str (self_rules (DependencyGraph_init rules))) =
        map (\<lambda>(i, ns). spec_line i ns) (spec_forward_rows rules) @ [''''] \<and>
      text_lines (DependencyGraph_reverse (self_rules (DependencyGraph_init rules))) =
        map (\<lambda>(i, ns). spec_line i ns) (spec_reverse_rows rules) @ ['''']) \<and>
   (adjacency (rules ! 0) rules = {1} \<longrightarrow>
      ''R0:R1'' \<in> set (text_lines
         (DependencyGraph_str (self_rules (DependencyGraph_init rules))))) \<and>
   (1 < length rules \<and> reverse_edges (rules ! 1) rules = {0} \<longrightarrow>
      ''R1:R0'' \<in> set (text_lines
         (DependencyGraph_reverse (self_rules (DependencyGraph_init rules)))))"
proof -
  have rows: "\<forall>i < length rules.
      \<exists>v fs rs. map_of (self_rules (DependencyGraph_init rules)) i = Some v \<and>
        spec_forward_rows rules ! i = (i, fs) \<and> sorted_wrt (<) fs \<and> set fs = edges v \<and>
        spec_reverse_rows rules ! i = (i, rs) \<and> sorted_wrt (<) rs \<and> set rs = reverse v"
    by (simp add: graph_DependencyGraph_init Vertex_init_def spec_forward_rows_nth
          spec_reverse_rows_nth finite_adjacency finite_reverse_edges)
  have lines: "rules \<noteq> [] \<longrightarrow>
      text_lines (DependencyGraph_str (self_rules (DependencyGraph_init rules))) =
        map (\<lambda>(i, ns). spec_line i ns) (spec_forward_rows rules) @ [''''] \<and>
      text_lines (DependencyGraph_reverse (self_rules (DependencyGraph_init rules))) =
        map (\<lambda>(i, ns). spec_line i ns) (spec_reverse_rows rules) @ ['''']"
    by (simp add: DependencyGraph_str_eq DependencyGraph_reverse_eq text_lines_spec_listing
          spec_rows_empty)
  have l01: "spec_line 0 [1] = ''R0:R1''" and l10: "spec_line 1 [0] = ''R1:R0''"
    by (simp_all add: spec_line_def str_nat.simps digit_char_def)
  have fwd0: "''R0:R1'' \<in> set (text_lines
         (DependencyGraph_str (self_rules (DependencyGraph_init rules))))"
    if e: "adjacency (rules ! 0) rules = {1}"
  proof -
    from e have "1 \<in> adjacency (rules ! 0) rules" by simp
    then have "1 < length rules" by (simp add: adjacency_iff)
    then have "0 < length rules" by (cases rules) simp_all
    from forward_line_in_listing [OF this] e l01 show ?thesis by simp
  qed
  have rev1: "''R1:R0'' \<in> set (text_lines
         (DependencyGraph_reverse (self_rules (DependencyGraph_init rules))))"
    if "1 < length rules" and e: "reverse_edges (rules ! 1) rules = {0}"
    using reverse_line_in_listing [OF that(1)] e l10 by simp
  from rows lines fwd0 rev1 show ?thesis
    by (simp only: DependencyGraph_str_eq DependencyGraph_reverse_eq spec_rows_keys
          newline_not_in_spec_line simp_thms) blast
qed

theorem listings_format_witness:
  "example_rules \<noteq> [] \<and>
   adjacency (example_rules ! 0) example_rules = {1} \<and>
   1 < length example_rules \<and>
   reverse_edges (example_rules ! 1) example_rules = {0} \<and>
   DependencyGraph_str (self_rules (DependencyGraph_init example_rules)) =
     ''R0:R1\<newline>R1:\<newline>R2:R2\<newline>'' \<and>
   DependencyGraph_reverse (self_rules (DependencyGraph_init example_rules)) =
     ''R0:\<newline>R1:R0\<newline>R2:R2\<newline>'' \<and>
   text_lines (DependencyGraph_str (self_rules (DependencyGraph_init example_rules))) =
     [''R0:R1'', ''R1:'', ''R2:R2'', ''''] \<and>
   ''R0:R1'' \<in> set (text_lines
      (DependencyGraph_str (self_rules (DependencyGraph_init example_rules)))) \<and>
   ''R1:R0'' \<in> set (text_lines
      (DependencyGraph_reverse (self_rules (DependencyGraph_init example_rules))))"
proof -
  have ne: "example_rules \<noteq> []" and len: "1 < length example_rules"
    by (simp_all add: example_rules_def)
  have a: "adjacency (example_rules ! 0) example_rules = {1}"
    by code_simp
  have b: "reverse_edges (example_rules ! 1) example_rules = {0}"
    by code_simp
  have f: "spec_listing (spec_forward_rows example_rules) =
           ''R0:R1\<newline>R1:\<newline>R2:R2\<newline>''"
    by code_simp
  have r: "spec_listing (spec_reverse_rows example_rules) =
           ''R0:\<newline>R1:R0\<newline>R2:R2\<newline>''"
    by code_simp
  have l: "map (\<lambda>(i, ns). spec_line i ns) (spec_forward_rows example_rules) @ [''''] =
           [''R0:R1'', ''R1:'', ''R2:R2'', '''']"
    by code_simp
  from listings_format [of example_rules] ne len a b f r l show ?thesis
    by simp
qed

section \<open>The optimizer's constructor\<close>

lemma query_loop_fact_store:
  "fact_store (query_loop evaluate_query qs self) = fact_store self"
  by (induction qs arbitrary: self) simp_all

lemma query_loop_rule_evaluation:
  "rule_evaluation (query_loop evaluate_query qs self) = rule_evaluation self"
  by (induction qs arbitrary: self) simp_all

lemma query_loop_calls:
  "calls (query_loop evaluate_query qs self) =
     calls self @ map (\<lambda>q. Call_evaluate_query q (fact_store self)) qs"
  by (induction qs arbitrary: self) simp_all

lemma query_loop_rdbms:
  "map_of (rdbms (query_loop evaluate_query qs self)) q =
     (if q \<in> set qs then Some (evaluate_query q (fact_store self))
      else map_of (rdbms self) q)"
  by (induction qs arbitrary: self) (simp_all add: update_conv')

text \<open>
  Claim C5. Whatever object and dependency graph it is given, \<open>evaluate_optimized_rules\<close>
  returns the empty string; so the optimizer's \<open>rule_evaluation\<close> is empty for every
  program, whatever its rules and facts.
\<close>

theorem evaluate_optimized_rules_empty:
  "fst (evaluate_optimized_rules self order) = '''' \<and>
   rule_evaluation (RuleOptimizer_init super_init evaluate_query datalog_program) = ''''"
  by (simp add: RuleOptimizer_init_def evaluate_optimized_rules_def Let_def
        query_loop_rule_evaluation)

lemma count_list_query_calls:
  "count_list (map (\<lambda>q. Call_evaluate_query q f) qs) (Call_evaluate_query query f) =
     count_list qs query"
  by (induction qs) simp_all

text \<open>
  Claim C7. After the calls of the superclass constructor, the constructor calls
  \<open>evaluate_optimized_rules\<close> once and then \<open>evaluate_query\<close> once for each element of the
  program's query sequence, in the order of the sequence: every query call comes after the
  rule evaluation, and a query is evaluated as often as it occurs in the sequence. The
  result store then maps every query of the sequence to the result of its evaluation, and
  leaves every other key as the superclass constructor set it.
\<close>

theorem queries_after_rule_evaluation:
  "calls (RuleOptimizer_init super_init evaluate_query datalog_program) =
     calls (super_init datalog_program False) @
     Call_evaluate_optimized_rules #
     map (\<lambda>q. Call_evaluate_query q (fact_store (super_init datalog_program False)))
         (program_queries datalog_program) \<and>
   count_list
     (drop (length (calls (super_init datalog_program False)))
        (calls (RuleOptimizer_init super_init evaluate_query datalog_program)))
     (Call_evaluate_query query (fact_store (super_init datalog_program False))) =
     count_list (program_queries datalog_program) query \<and>
   map_of (rdbms (RuleOptimizer_init super_init evaluate_query datalog_program)) query =
     (if query \<in> set (program_queries datalog_program)
      then Some (evaluate_query query (fact_store (super_init datalog_program False)))
      else map_of (rdbms (super_init datalog_program False)) query)"
  by (simp add: RuleOptimizer_init_def evaluate_optimized_rules_def Let_def
        query_loop_calls query_loop_rdbms count_list_query_calls)

text \<open>
  Claim C10. The optimizer evaluates no rule before it answers the queries: the
  superclass constructor is run with \<^verbatim>\<open>least_fix_point=False\<close> (the naive evaluation \<open>naive\<close>
  plays no part), \<open>evaluate_optimized_rules\<close> returns the object as it received it, and
  every query is evaluated against the base facts of the program, which are still the fact
  store when the constructor returns.
\<close>

theorem no_rule_evaluation_before_queries:
  "evaluate_optimized_rules self order = ('''', self) \<and>
   fact_store (RuleOptimizer_init (DatalogInterpreter_init naive) evaluate_query datalog_program)
     = program_facts datalog_program \<and>
   calls (RuleOptimizer_init (DatalogInterpreter_init naive) evaluate_query datalog_program) =
     Call_evaluate_optimized_rules #
     map (\<lambda>q. Call_evaluate_query q (program_facts datalog_program))
         (program_queries datalog_program)"
  by (simp add: RuleOptimizer_init_def evaluate_optimized_rules_def Let_def
        DatalogInterpreter_init_def query_loop_calls query_loop_fact_store)

end
